theory Spec2Isabelle
  imports Main "HOL-Library.Word" "HOL-Library.Monad_Syntax"
begin

unbundle bit_operations_syntax

section \<open>Machine words, shifts and memory\<close>

text \<open>
  The template parameter \<open>Data\<close> (\<open>T\<close>) of \<open>bit_range_ops.h\<close> is an unsigned integer
  type of \<open>W = LENGTH('a)\<close> bits, modelled as \<open>'a word\<close>; the instances of interest are
  \<open>8 word\<close>, \<open>16 word\<close>, \<open>32 word\<close> and \<open>64 word\<close>.  Shift counts (\<open>shift_t\<close>, \<open>size_t\<close>)
  are naturals, values of the type \<open>int\<close> are integers.

  A C++ shift \<open>x << n\<close> or \<open>x >> n\<close> has no defined result when \<open>n\<close> is not less than
  the width of the (promoted) left operand: operands narrower than \<open>int\<close> are promoted
  to the 32-bit \<open>int\<close> first, so the limit is \<open>max 32 W\<close>.  Such a shift, and a read or
  write outside the word array, is the value \<open>None\<close> of the model.  Inside the limit the
  shifted value, converted back to \<open>Data\<close>, is \<open>push_bit n x\<close> or \<open>drop_bit n x\<close>.
\<close>

definition shl :: "'a::len word \<Rightarrow> nat \<Rightarrow> 'a word option" where
  "shl x n = (if n < max 32 LENGTH('a) then Some (push_bit n x) else None)"

definition shr :: "'a::len word \<Rightarrow> nat \<Rightarrow> 'a word option" where
  "shr x n = (if n < max 32 LENGTH('a) then Some (drop_bit n x) else None)"

text \<open>\<open>a - b\<close> computed in the unsigned 32-bit type \<open>shift_t\<close>: it wraps around below zero.\<close>

definition shift_t_sub :: "nat \<Rightarrow> nat \<Rightarrow> nat" where
  "shift_t_sub a b = (if b \<le> a then a - b else a + 2 ^ 32 - b)"

text \<open>Conversion of an \<open>int\<close> to \<open>shift_t\<close> (a negative value becomes a large count).\<close>

definition to_shift_t :: "int \<Rightarrow> nat" where
  "to_shift_t i = nat (i mod 2 ^ 32)"

text \<open>
  A word array is a list; a pointer into it is an index (an \<open>int\<close>, since the buffers
  add \<open>int\<close> offsets to it).  Only dereferences are checked.
\<close>

definition load :: "'a list \<Rightarrow> int \<Rightarrow> 'a option" where
  "load mem p = (if 0 \<le> p \<and> p < int (length mem) then Some (mem ! nat p) else None)"

definition store :: "'a list \<Rightarrow> int \<Rightarrow> 'a \<Rightarrow> 'a list option" where
  "store mem p v = (if 0 \<le> p \<and> p < int (length mem) then Some (mem[nat p := v]) else None)"

section \<open>The double-word shift\<close>

text \<open>
  \<open>shrd_emulated\<close>: \<open>low >>= bits; high <<= (TBITS - bits); return low | high\<close>.
\<close>

definition shrd_emulated :: "'a::len word \<Rightarrow> 'a word \<Rightarrow> nat \<Rightarrow> 'a word option" where
  "shrd_emulated low high bits = do {
     low' \<leftarrow> shr low bits;
     high' \<leftarrow> shl high (shift_t_sub LENGTH('a) bits);
     Some (low' OR high')
   }"

text \<open>
  The \<open>shrd\<close> instruction of x86 that the accelerated variant executes through inline
  assembly, after the instruction set reference: the count is taken modulo 64 for a
  64-bit operand and modulo 32 otherwise; a count of zero changes nothing; a count
  above the operand size leaves the destination undefined; otherwise the destination
  is shifted right by the count and filled from the low bits of the source.
\<close>

definition shrd_insn :: "'a::len word \<Rightarrow> 'a word \<Rightarrow> nat \<Rightarrow> 'a word option" where
  "shrd_insn dest src imm =
     (let count = imm mod (if LENGTH('a) = 64 then 64 else 32) in
      if count = 0 then Some dest
      else if LENGTH('a) < count then None
      else Some (drop_bit count dest OR push_bit (LENGTH('a) - count) src))"

text \<open>
  The template \<open>shrd\<close> under \<open>JML_INTEL_ISA\<close>:
  \<open>if (bits > TBITS) return 0;\<close> then the instruction with count \<open>(uint8_t)bits\<close>.
\<close>

definition shrd_intel :: "'a::len word \<Rightarrow> 'a word \<Rightarrow> nat \<Rightarrow> 'a word option" where
  "shrd_intel low high bits =
     (if bits > LENGTH('a) then Some 0 else shrd_insn low high (bits mod 256))"

text \<open>
  Which \<open>shrd\<close> a build has depends on the macro \<open>JML_INTEL_ISA\<close> (set by
  \<open>arch/arch.h\<close>) and on the compiler not being NVCC; it is a parameter of the model.
  With \<open>Intel_ISA\<close> the 8-bit overloads still call \<open>shrd_emulated\<close>, since there is no
  8-bit instruction; with \<open>Other_ISA\<close> every width does.
\<close>

datatype isa = Intel_ISA | Other_ISA

definition shrd :: "isa \<Rightarrow> 'a::len word \<Rightarrow> 'a word \<Rightarrow> nat \<Rightarrow> 'a word option" where
  "shrd arch low high bits =
     (if arch = Intel_ISA \<and> LENGTH('a) \<noteq> 8 then shrd_intel low high bits
      else shrd_emulated low high bits)"

section \<open>Extracting and setting a bit range\<close>

text \<open>
  The pointer variant \<open>extract_bit_range(const Data * p, size_t bit, shift_t bits)\<close>:
  \<open>p[1]\<close> is read only when the field straddles the two words.  The offset \<open>bit\<close> is a
  \<open>size_t\<close>; \<open>shrd\<close> takes it as a \<open>shift_t\<close>, that is modulo \<open>2 ^ 32\<close>.
\<close>

definition extract_bit_range_ptr ::
  "isa \<Rightarrow> 'a::len word list \<Rightarrow> int \<Rightarrow> nat \<Rightarrow> nat \<Rightarrow> 'a word option" where
  "extract_bit_range_ptr arch mem p ofs bits = do {
     result \<leftarrow> load mem p;
     result \<leftarrow> (if ofs + bits > LENGTH('a)
                then do { p1 \<leftarrow> load mem (p + 1); shrd arch result p1 (ofs mod 2 ^ 32) }
                else shr result ofs);
     let result = result * (if bits \<noteq> 0 then 1 else 0);
     m \<leftarrow> shl 1 bits;
     Some (result AND (m - 1))
   }"

text \<open>The pure variant \<open>extract_bit_range(Data p0, Data p1, size_t bit, shift_t bits)\<close>.\<close>

definition extract_bit_range ::
  "isa \<Rightarrow> 'a::len word \<Rightarrow> 'a word \<Rightarrow> nat \<Rightarrow> nat \<Rightarrow> 'a word option" where
  "extract_bit_range arch p0 p1 ofs bits =
     (if bits = 0 then Some 0
      else do {
        s \<leftarrow> shrd arch p0 p1 (ofs mod 2 ^ 32);
        m \<leftarrow> shl 1 bits;
        Some ((s * (if bits \<noteq> 0 then 1 else 0)) AND (m - 1))
      })"

text \<open>\<open>set_bits(Data in, Data val, shift_t bit, shift_t bits)\<close>.\<close>

definition set_bits :: "'a::len word \<Rightarrow> 'a word \<Rightarrow> nat \<Rightarrow> nat \<Rightarrow> 'a word option" where
  "set_bits inp val ofs bits = do {
     m \<leftarrow> shl 1 bits;
     mask \<leftarrow> shl (m - 1) ofs;
     val' \<leftarrow> shl val ofs;
     Some ((inp AND NOT mask) OR (val' AND mask))
   }"

text \<open>
  \<open>set_bit_range(Data * p, Data val, shift_t bit, shift_t bits)\<close>; \<open>bits0\<close> and \<open>bits1\<close>
  are \<open>int\<close>, converted back to \<open>shift_t\<close> where they are passed on.  The result is the
  updated array.
\<close>

definition set_bit_range ::
  "'a::len word list \<Rightarrow> int \<Rightarrow> 'a word \<Rightarrow> nat \<Rightarrow> nat \<Rightarrow> 'a word list option" where
  "set_bit_range mem p val ofs bits =
     (if bits = 0 then Some mem
      else
        let bits0 = min (int bits) (int LENGTH('a) - int ofs);
            bits1 = int bits - bits0
        in do {
          w0 \<leftarrow> load mem p;
          w0' \<leftarrow> set_bits w0 val ofs (to_shift_t bits0);
          mem' \<leftarrow> store mem p w0';
          if bits1 \<noteq> 0
          then do {
            w1 \<leftarrow> load mem' (p + 1);
            v1 \<leftarrow> shr val (to_shift_t bits0);
            w1' \<leftarrow> set_bits w1 v1 0 (to_shift_t bits1);
            store mem' (p + 1) w1'
          }
          else Some mem'
        })"

section \<open>Sign extension\<close>

text \<open>
  \<open>sign_extend(T raw, int sign_bit)\<close> for a signed \<open>T\<close> of \<open>W\<close> bits, read through \<open>sint\<close>:
  \<open>int sign = (raw & (1 << sign_bit)) != 0; T new_bits = T(-sign) << sign_bit;
  return raw | new_bits\<close>.  The constant \<open>1\<close> is an \<open>int\<close>, so its shift is one of a
  32-bit value; the conjunction is taken on the values of both operands.  The shift of
  \<open>T(-sign)\<close> is taken bitwise.
\<close>

definition sign_extend :: "'a::len word \<Rightarrow> int \<Rightarrow> 'a word option" where
  "sign_extend raw sign_bit =
     (if 0 \<le> sign_bit \<and> sign_bit < 32
      then do {
        let sign = (if sint raw AND sint (push_bit (nat sign_bit) (1 :: 32 word)) \<noteq> 0
                    then 1 else 0 :: int);
        new_bits \<leftarrow> shl (word_of_int (- sign)) (nat sign_bit);
        Some (raw OR new_bits)
      }
      else None)"

text \<open>Conversion to the 32-bit \<open>int\<close> and to the 64-bit \<open>size_t\<close>.\<close>

definition to_int :: "int \<Rightarrow> int" where
  "to_int i = (i + 2 ^ 31) mod 2 ^ 32 - 2 ^ 31"

definition to_size_t :: "int \<Rightarrow> int" where
  "to_size_t i = i mod 2 ^ 64"

text \<open>
  \<open>fixup_extract\<close>: the template returns its argument; the overloads for the signed
  types call \<open>sign_extend(e, bits)\<close>.
\<close>

definition fixup_extract :: "'a::len word \<Rightarrow> nat \<Rightarrow> 'a word" where
  "fixup_extract extracted bits = extracted"

definition fixup_extract_signed :: "'a::len word \<Rightarrow> nat \<Rightarrow> 'a word option" where
  "fixup_extract_signed e bits = sign_extend e (to_int (int bits))"

section \<open>Memory buffers\<close>

text \<open>
  \<open>Simple_Mem_Buffer\<close> holds the pointer only.  The array is constant while it is read
  and is an argument of the operations that dereference the pointer.
\<close>

record simple_mem_buffer =
  smb_data :: int

definition simple_mem_buffer :: "int \<Rightarrow> simple_mem_buffer" where
  "simple_mem_buffer p = \<lparr>smb_data = p\<rparr>"

definition smb_curr :: "'a list \<Rightarrow> simple_mem_buffer \<Rightarrow> 'a option" where
  "smb_curr mem b = load mem (smb_data b)"

definition smb_next :: "'a list \<Rightarrow> simple_mem_buffer \<Rightarrow> 'a option" where
  "smb_next mem b = load mem (smb_data b + 1)"

text \<open>\<open>operator += (int offset)\<close>.\<close>

definition smb_advance :: "simple_mem_buffer \<Rightarrow> int \<Rightarrow> simple_mem_buffer" where
  "smb_advance b offset = b\<lparr>smb_data := smb_data b + offset\<rparr>"

text \<open>\<open>Buffered_Mem_Buffer\<close> keeps the two words \<open>b0\<close> and \<open>b1\<close> beside the pointer.\<close>

record 'a buffered_mem_buffer =
  bmb_data :: int
  b0 :: 'a
  b1 :: 'a

definition buffered_mem_buffer :: "'a list \<Rightarrow> int \<Rightarrow> 'a buffered_mem_buffer option" where
  "buffered_mem_buffer mem p = do {
     x0 \<leftarrow> load mem p;
     x1 \<leftarrow> load mem (p + 1);
     Some \<lparr>bmb_data = p, b0 = x0, b1 = x1\<rparr>
   }"

definition bmb_curr :: "'a buffered_mem_buffer \<Rightarrow> 'a" where
  "bmb_curr b = b0 b"

definition bmb_next :: "'a buffered_mem_buffer \<Rightarrow> 'a" where
  "bmb_next b = b1 b"

text \<open>
  \<open>operator += (int offset)\<close>: \<open>data += offset;
  b0 = (offset == 0 ? b0 : (offset == 1 ? b1 : data[0]));
  b1 = (offset == 0 ? b1 : data[1])\<close>.
\<close>

definition bmb_advance ::
  "'a list \<Rightarrow> 'a buffered_mem_buffer \<Rightarrow> int \<Rightarrow> 'a buffered_mem_buffer option" where
  "bmb_advance mem b offset =
     (let d = bmb_data b + offset in do {
        n0 \<leftarrow> (if offset = 0 then Some (b0 b)
               else if offset = 1 then Some (b1 b) else load mem d);
        n1 \<leftarrow> (if offset = 0 then Some (b1 b) else load mem (d + 1));
        Some \<lparr>bmb_data = d, b0 = n0, b1 = n1\<rparr>
      })"

text \<open>\<open>operator ++ (int)\<close>: \<open>b0 = b1; b1 = data[1]\<close>.\<close>

definition bmb_post_inc ::
  "'a list \<Rightarrow> 'a buffered_mem_buffer \<Rightarrow> 'a buffered_mem_buffer option" where
  "bmb_post_inc mem b = do {
     n1 \<leftarrow> load mem (bmb_data b + 1);
     Some (b\<lparr>b0 := b1 b, b1 := n1\<rparr>)
   }"

text \<open>
  A sequence of advances applied to either buffer, with \<open>curr()\<close> and \<open>next()\<close> observed
  after each one.
\<close>

fun smb_run :: "'a list \<Rightarrow> simple_mem_buffer \<Rightarrow> int list \<Rightarrow> ('a \<times> 'a) list option" where
  "smb_run mem b [] = Some []"
| "smb_run mem b (k # ks) =
     (let b' = smb_advance b k in do {
        c \<leftarrow> smb_curr mem b';
        n \<leftarrow> smb_next mem b';
        rest \<leftarrow> smb_run mem b' ks;
        Some ((c, n) # rest)
      })"

fun bmb_run ::
  "'a list \<Rightarrow> 'a buffered_mem_buffer \<Rightarrow> int list \<Rightarrow> ('a \<times> 'a) list option" where
  "bmb_run mem b [] = Some []"
| "bmb_run mem b (k # ks) = do {
     b' \<leftarrow> bmb_advance mem b k;
     rest \<leftarrow> bmb_run mem b' ks;
     Some ((bmb_curr b', bmb_next b') # rest)
   }"

text \<open>The states a \<open>Buffered_Mem_Buffer\<close> reaches by construction and \<open>+=\<close>.\<close>

inductive bmb_reachable :: "'a list \<Rightarrow> 'a buffered_mem_buffer \<Rightarrow> bool" for mem where
  construct: "buffered_mem_buffer mem p = Some b \<Longrightarrow> bmb_reachable mem b"
| advance: "bmb_reachable mem b \<Longrightarrow> bmb_advance mem b k = Some b' \<Longrightarrow> bmb_reachable mem b'"

section \<open>The bit cursor, the extractor and the writer\<close>

text \<open>
  Addition of two \<open>int\<close>s; a sum outside the 32-bit range is an overflow, which has no
  defined result.
\<close>

definition int_add :: "int \<Rightarrow> int \<Rightarrow> int option" where
  "int_add a b = (if - (2 ^ 31) \<le> a + b \<and> a + b < 2 ^ 31 then Some (a + b) else None)"

text \<open>
  \<open>Bit_Buffer\<close> with its default \<open>MemBuf = Simple_Mem_Buffer\<close>.  The first argument of
  \<open>bb_advance\<close> is \<open>sizeof(Data) * 8\<close>, a \<open>size_t\<close>: the division and the remainder are
  unsigned, the quotient is converted to the \<open>int\<close> that \<open>operator +=\<close> takes.
\<close>

record bit_buffer =
  bb_data :: simple_mem_buffer
  bit_ofs :: int

definition bit_buffer :: "int \<Rightarrow> bit_buffer" where
  "bit_buffer p = \<lparr>bb_data = simple_mem_buffer p, bit_ofs = 0\<rparr>"

definition bb_advance :: "nat \<Rightarrow> bit_buffer \<Rightarrow> int \<Rightarrow> bit_buffer option" where
  "bb_advance w bb bits = do {
     s \<leftarrow> int_add (bit_ofs bb) bits;
     let d = smb_advance (bb_data bb) (to_int (to_size_t s div int w));
     Some \<lparr>bb_data = d, bit_ofs = to_int (to_size_t s mod int w)\<rparr>
   }"

definition bb_extract ::
  "isa \<Rightarrow> 'a::len word list \<Rightarrow> bit_buffer \<Rightarrow> int \<Rightarrow> ('a word \<times> bit_buffer) option" where
  "bb_extract arch mem bb bits = do {
     c \<leftarrow> smb_curr mem (bb_data bb);
     n \<leftarrow> smb_next mem (bb_data bb);
     result \<leftarrow> extract_bit_range arch c n (nat (to_size_t (bit_ofs bb))) (to_shift_t bits);
     bb' \<leftarrow> bb_advance LENGTH('a) bb bits;
     Some (result, bb')
   }"

text \<open>A sequence of advances, with the cursor observed after each one.\<close>

fun bb_advances :: "nat \<Rightarrow> bit_buffer \<Rightarrow> int list \<Rightarrow> bit_buffer list option" where
  "bb_advances w bb [] = Some []"
| "bb_advances w bb (n # ns) = do {
     bb' \<leftarrow> bb_advance w bb n;
     rest \<leftarrow> bb_advances w bb' ns;
     Some (bb' # rest)
   }"

text \<open>A sequence of fields extracted through the cursor.\<close>

fun bb_extracts ::
  "isa \<Rightarrow> 'a::len word list \<Rightarrow> bit_buffer \<Rightarrow> int list \<Rightarrow> 'a word list option" where
  "bb_extracts arch mem bb [] = Some []"
| "bb_extracts arch mem bb (n # ns) = do {
     (r, bb') \<leftarrow> bb_extract arch mem bb n;
     rest \<leftarrow> bb_extracts arch mem bb' ns;
     Some (r # rest)
   }"

text \<open>
  The same fields extracted one by one with the pointer variant of
  \<open>extract_bit_range\<close>: the field that starts \<open>t\<close> bits after the word at \<open>p\<close> is read at
  the word \<open>p + t div W\<close> and the offset \<open>t mod W\<close>.
\<close>

fun direct_extracts ::
  "isa \<Rightarrow> 'a::len word list \<Rightarrow> int \<Rightarrow> int \<Rightarrow> int list \<Rightarrow> 'a word list option" where
  "direct_extracts arch mem p t [] = Some []"
| "direct_extracts arch mem p t (n # ns) = do {
     r \<leftarrow> extract_bit_range_ptr arch mem (p + t div int LENGTH('a))
            (nat (t mod int LENGTH('a))) (nat n);
     rest \<leftarrow> direct_extracts arch mem p (t + n) ns;
     Some (r # rest)
   }"

text \<open>
  \<open>Bit_Extractor\<close> with its default \<open>Buffer = Bit_Buffer\<close>; its own \<open>bit_ofs\<close> is set to
  0 and not used.  \<open>extract(T & where, int num_bits)\<close> is \<open>where = buf.extract(num_bits)\<close>:
  the extracted \<open>Data\<close> is converted to the destination type \<open>T\<close>, a word of the width
  of \<open>T\<close> that a signed \<open>T\<close> reads through \<open>sint\<close> and an unsigned \<open>T\<close> through \<open>uint\<close>.
\<close>

record bit_extractor =
  be_buf :: bit_buffer
  be_bit_ofs :: int

definition bit_extractor :: "int \<Rightarrow> bit_extractor" where
  "bit_extractor p = \<lparr>be_buf = bit_buffer p, be_bit_ofs = 0\<rparr>"

definition be_extract ::
  "isa \<Rightarrow> 'a::len word list \<Rightarrow> bit_extractor \<Rightarrow> int \<Rightarrow> ('b::len word \<times> bit_extractor) option"
  where
  "be_extract arch mem e num_bits = do {
     (r, b) \<leftarrow> bb_extract arch mem (be_buf e) num_bits;
     Some (ucast r, e\<lparr>be_buf := b\<rparr>)
   }"

text \<open>
  \<open>Bit_Writer::write(Data val, int bits)\<close>: \<open>set_bit_range(data, val, bit_ofs, bits)\<close>,
  then the same three statements as \<open>Bit_Buffer::advance\<close>, the quotient being added to
  the pointer itself.
\<close>

record bit_writer =
  bw_data :: int
  bw_bit_ofs :: int

definition bit_writer :: "int \<Rightarrow> bit_writer" where
  "bit_writer p = \<lparr>bw_data = p, bw_bit_ofs = 0\<rparr>"

definition bw_write ::
  "'a::len word list \<Rightarrow> bit_writer \<Rightarrow> 'a word \<Rightarrow> int \<Rightarrow> ('a word list \<times> bit_writer) option"
  where
  "bw_write mem w val bits = do {
     mem' \<leftarrow> set_bit_range mem (bw_data w) val (to_shift_t (bw_bit_ofs w)) (to_shift_t bits);
     s \<leftarrow> int_add (bw_bit_ofs w) bits;
     Some (mem', \<lparr>bw_data = bw_data w + to_size_t s div int LENGTH('a),
                  bw_bit_ofs = to_int (to_size_t s mod int LENGTH('a))\<rparr>)
   }"

section \<open>Reference notions\<close>

text \<open>
  The window of \<open>W\<close> bits that starts \<open>n\<close> bits into the double word \<open>high:low\<close>, and the
  field of \<open>bits\<close> bits at its bottom.
\<close>

definition window :: "'a::len word \<Rightarrow> 'a word \<Rightarrow> nat \<Rightarrow> 'a word" where
  "window low high n = drop_bit n low OR push_bit (LENGTH('a) - n) high"

definition bit_field :: "'a::len word \<Rightarrow> 'a word \<Rightarrow> nat \<Rightarrow> nat \<Rightarrow> 'a word" where
  "bit_field w0 w1 ofs bits = take_bit bits (window w0 w1 ofs)"

text \<open>The word \<open>inp\<close> with the \<open>n\<close> bits from \<open>ofs\<close> on replaced by the low bits of \<open>val\<close>.\<close>

definition replace_bits :: "'a::len word \<Rightarrow> 'a word \<Rightarrow> nat \<Rightarrow> nat \<Rightarrow> 'a word" where
  "replace_bits inp val ofs n =
     (inp AND NOT (push_bit ofs (2 ^ n - 1))) OR (push_bit ofs val AND push_bit ofs (2 ^ n - 1))"

text \<open>
  Bit \<open>k\<close> of word \<open>j\<close> of an array of \<open>w\<close>-bit words lies in the field of \<open>bits\<close> bits that
  starts at bit \<open>ofs\<close> of word \<open>p\<close>.
\<close>

definition in_field :: "nat \<Rightarrow> int \<Rightarrow> nat \<Rightarrow> nat \<Rightarrow> nat \<Rightarrow> nat \<Rightarrow> bool" where
  "in_field w p ofs bits j k \<longleftrightarrow>
     p * int w + int ofs \<le> int j * int w + int k \<and>
     int j * int w + int k < p * int w + int ofs + int bits"

text \<open>The pairs of words at the positions a sequence of advances from \<open>i\<close> visits.\<close>

fun word_views :: "'a list \<Rightarrow> int \<Rightarrow> int list \<Rightarrow> ('a \<times> 'a) list" where
  "word_views mem i [] = []"
| "word_views mem i (k # ks) =
     (mem ! nat (i + k), mem ! nat (i + k + 1)) # word_views mem (i + k) ks"

text \<open>The running totals of a sequence of advances, from \<open>t\<close>.\<close>

fun totals :: "int \<Rightarrow> int list \<Rightarrow> int list" where
  "totals t [] = []"
| "totals t (n # ns) = (t + n) # totals (t + n) ns"

text \<open>
  The fields of the given widths that lie one after another in the array, the first one
  starting \<open>t\<close> bits after the word at \<open>p\<close>.
\<close>

fun fields :: "'a::len word list \<Rightarrow> int \<Rightarrow> int \<Rightarrow> int list \<Rightarrow> 'a word list" where
  "fields mem p t [] = []"
| "fields mem p t (n # ns) =
     bit_field (mem ! nat (p + t div int LENGTH('a))) (mem ! Suc (nat (p + t div int LENGTH('a))))
       (nat (t mod int LENGTH('a))) (nat n)
     # fields mem p (t + n) ns"

text \<open>The normalized cursor \<open>t\<close> bits after the word at \<open>p\<close>.\<close>

definition cursor_at :: "nat \<Rightarrow> int \<Rightarrow> int \<Rightarrow> bit_buffer" where
  "cursor_at w p t = \<lparr>bb_data = \<lparr>smb_data = p + t div int w\<rparr>, bit_ofs = t mod int w\<rparr>"

text \<open>The normalized writer \<open>t\<close> bits after the word at \<open>p\<close>.\<close>

definition writer_at :: "nat \<Rightarrow> int \<Rightarrow> int \<Rightarrow> bit_writer" where
  "writer_at w p t = \<lparr>bw_data = p + t div int w, bw_bit_ofs = t mod int w\<rparr>"

text \<open>The invariant of \<open>Buffered_Mem_Buffer\<close>: the two cached words are those in memory.\<close>

definition bmb_inv :: "'a list \<Rightarrow> 'a buffered_mem_buffer \<Rightarrow> bool" where
  "bmb_inv mem b \<longleftrightarrow>
     load mem (bmb_data b) = Some (b0 b) \<and> load mem (bmb_data b + 1) = Some (b1 b)"

section \<open>Properties of the shift primitives\<close>

lemma bit_window_iff:
  "n \<le> LENGTH('a) \<Longrightarrow> bit (window low high n :: 'a::len word) k \<longleftrightarrow>
     k < LENGTH('a) \<and>
     (if n + k < LENGTH('a) then bit low (n + k) else bit high (n + k - LENGTH('a)))"
  by (auto simp add: window_def bit_simps add.commute dest: bit_imp_le_length)

lemma window_0 [simp]: "window low high 0 = low"
  by (simp add: window_def)

lemma bit_field_0 [simp]: "bit_field w0 w1 ofs 0 = 0"
  by (simp add: bit_field_def)

lemma bit_bit_field_iff:
  "ofs \<le> LENGTH('a) \<Longrightarrow> bit (bit_field w0 w1 ofs bits :: 'a::len word) k \<longleftrightarrow>
     k < bits \<and> k < LENGTH('a) \<and>
     (if ofs + k < LENGTH('a) then bit w0 (ofs + k) else bit w1 (ofs + k - LENGTH('a)))"
  by (simp add: bit_field_def bit_take_bit_iff bit_window_iff)

lemma bit_replace_bits_iff:
  "bit (replace_bits inp val ofs n :: 'a::len word) k \<longleftrightarrow>
     (if ofs \<le> k \<and> k < ofs + n then k < LENGTH('a) \<and> bit val (k - ofs) else bit inp k)"
  by (auto simp add: replace_bits_def bit_simps simp flip: mask_eq_exp_minus_1
      dest: bit_imp_le_length)

lemma mask_and_take_bit: "x AND (2 ^ n - 1) = take_bit n (x :: 'a::len word)"
  by (simp add: take_bit_eq_mask flip: mask_eq_exp_minus_1)

lemma shrd_emulated_window:
  "0 < n \<Longrightarrow> n < LENGTH('a) \<Longrightarrow>
   shrd_emulated low high n = Some (window low (high :: 'a::len word) n)"
  by (simp add: shrd_emulated_def shr_def shl_def shift_t_sub_def window_def less_max_iff_disj)

lemma shrd_emulated_0_narrow:
  "LENGTH('a) < 32 \<Longrightarrow> shrd_emulated low (high :: 'a::len word) 0 = Some low"
  by (simp add: shrd_emulated_def shr_def shl_def shift_t_sub_def)

lemma shrd_emulated_0_wide:
  "32 \<le> LENGTH('a) \<Longrightarrow> shrd_emulated low (high :: 'a::len word) 0 = None"
  by (simp add: shrd_emulated_def shr_def shl_def shift_t_sub_def)

lemma shrd_intel_window:
  assumes "n < LENGTH('a)" "LENGTH('a) \<le> 32 \<or> LENGTH('a) = 64"
  shows "shrd_intel low high n = Some (window low (high :: 'a::len word) n)"
proof (cases "n = 0")
  case True
  then show ?thesis by (simp add: shrd_intel_def shrd_insn_def)
next
  case False
  with assms have "n mod 256 = n" "n mod (if LENGTH('a) = 64 then 64 else 32) = n"
    by auto
  with False assms show ?thesis
    by (simp add: shrd_intel_def shrd_insn_def window_def Let_def)
qed

lemma shrd_window:
  assumes "0 < n" "n < LENGTH('a)" "LENGTH('a) \<le> 32 \<or> LENGTH('a) = 64"
  shows "shrd arch low high n = Some (window low (high :: 'a::len word) n)"
  using assms by (simp add: shrd_def shrd_intel_window shrd_emulated_window)

lemma shrd_0_defined:
  assumes "arch = Intel_ISA \<or> LENGTH('a) < 32" "LENGTH('a) \<le> 32 \<or> LENGTH('a) = 64"
  shows "shrd arch low (high :: 'a::len word) 0 = Some low"
  using assms shrd_intel_window [of 0 low high]
  by (auto simp add: shrd_def shrd_emulated_0_narrow)

text \<open>
  For a shift from 1 to \<open>W - 1\<close> the emulation and the accelerated \<open>shrd\<close> both return
  the window, and so they do for a shift of 0 on words narrower than \<open>int\<close>.
\<close>

lemma shrd_emulated_agrees:
  assumes "LENGTH('a) \<in> {8, 16, 32, 64}" "bits < LENGTH('a)" "0 < bits \<or> LENGTH('a) < 32"
  shows "shrd_emulated low high bits = Some (window low (high :: 'a::len word) bits)"
    and "shrd Intel_ISA low high bits = Some (window low high bits)"
proof -
  show "shrd_emulated low high bits = Some (window low high bits)"
  proof (cases "bits = 0")
    case True
    with assms show ?thesis
      by (auto simp add: shrd_emulated_0_narrow)
  next
    case False
    with assms show ?thesis
      by (simp add: shrd_emulated_window)
  qed
  from assms have "LENGTH('a) \<le> 32 \<or> LENGTH('a) = 64"
    by auto
  with assms show "shrd Intel_ISA low high bits = Some (window low high bits)"
    by (cases "bits = 0") (simp_all add: shrd_0_defined shrd_window)
qed

section \<open>Properties of extraction and writing\<close>

lemma take_bit_drop_bit_field:
  assumes "ofs + bits \<le> LENGTH('a)"
  shows "take_bit bits (drop_bit ofs w0) = bit_field w0 (w1 :: 'a::len word) ofs bits"
proof (rule bit_word_eqI)
  fix k assume "k < LENGTH('a)"
  with assms show "bit (take_bit bits (drop_bit ofs w0)) k = bit (bit_field w0 w1 ofs bits) k"
    by (auto simp add: bit_bit_field_iff bit_simps)
qed

text \<open>
  The pointer variant on a field that fits the word at \<open>p\<close>: one shift of that word and
  the mask; the next word is not read.
\<close>

lemma extract_bit_range_ptr_fits:
  assumes "0 \<le> p" "p < int (length mem)" "ofs + bits \<le> LENGTH('a)" "ofs < LENGTH('a)"
    "bits < LENGTH('a)"
  shows "extract_bit_range_ptr arch mem p ofs bits =
    Some (take_bit bits (drop_bit ofs (mem ! nat p :: 'a::len word)))"
  using assms
  by (cases "bits = 0")
    (simp_all add: extract_bit_range_ptr_def load_def shr_def shl_def less_max_iff_disj
      mask_and_take_bit)

text \<open>The pointer variant on a field that straddles: the double-word shift and the mask.\<close>

lemma extract_bit_range_ptr_straddles:
  assumes "0 \<le> p" "p + 1 < int (length mem)" "ofs < LENGTH('a)" "bits < LENGTH('a)"
    "LENGTH('a) < ofs + bits" "LENGTH('a) \<le> 32 \<or> LENGTH('a) = 64"
  shows "extract_bit_range_ptr arch mem p ofs bits =
    Some (take_bit bits (window (mem ! nat p) (mem ! Suc (nat p) :: 'a::len word) ofs))"
proof -
  from assms have "0 < ofs" "ofs mod 2 ^ 32 = ofs" by auto
  with assms show ?thesis
    by (simp add: extract_bit_range_ptr_def load_def shrd_window shl_def less_max_iff_disj
        mask_and_take_bit nat_add_distrib)
qed

lemma extract_bit_range_ptr_field:
  assumes "0 \<le> p" "p + 1 < int (length mem)" "ofs < LENGTH('a)" "bits < LENGTH('a)"
    "LENGTH('a) \<le> 32 \<or> LENGTH('a) = 64"
  shows "extract_bit_range_ptr arch mem p ofs bits =
    Some (bit_field (mem ! nat p) (mem ! Suc (nat p) :: 'a::len word) ofs bits)"
proof (cases "ofs + bits > LENGTH('a)")
  case True
  with assms show ?thesis
    by (simp add: extract_bit_range_ptr_straddles bit_field_def)
next
  case False
  with assms show ?thesis
    by (simp add: extract_bit_range_ptr_fits take_bit_drop_bit_field)
qed

text \<open>
  The pure variant, wherever its call of \<open>shrd\<close> is defined: at a positive offset, with
  the accelerated \<open>shrd\<close>, or on words narrower than \<open>int\<close>.
\<close>

lemma extract_bit_range_field:
  assumes "ofs < LENGTH('a)" "bits < LENGTH('a)" "LENGTH('a) \<in> {8, 16, 32, 64}"
    "0 < ofs \<or> arch = Intel_ISA \<or> LENGTH('a) < 32"
  shows "extract_bit_range arch p0 p1 ofs bits = Some (bit_field p0 (p1 :: 'a::len word) ofs bits)"
proof (cases "bits = 0")
  case True
  then show ?thesis by (simp add: extract_bit_range_def)
next
  case False
  from assms have m: "ofs mod 2 ^ 32 = ofs" and w: "LENGTH('a) \<le> 32 \<or> LENGTH('a) = 64"
    by auto
  have "shrd arch p0 p1 ofs = Some (window p0 p1 ofs)"
  proof (cases "ofs = 0")
    case True
    with assms w show ?thesis by (simp add: shrd_0_defined)
  next
    case False
    with assms w show ?thesis by (simp add: shrd_window)
  qed
  with False assms m show ?thesis
    by (simp add: extract_bit_range_def shl_def less_max_iff_disj mask_and_take_bit
        bit_field_def)
qed

text \<open>
  The value of the field as a number: the double word \<open>word1:word0\<close> divided by
  \<open>2 ^ ofs\<close>, modulo \<open>2 ^ bits\<close>.
\<close>

lemma uint_bit_field:
  assumes "ofs < LENGTH('a)" "bits \<le> LENGTH('a)"
  shows "uint (bit_field w0 w1 ofs bits :: 'a::len word) =
    (uint w0 + 2 ^ LENGTH('a) * uint w1) div 2 ^ ofs mod 2 ^ bits"
proof -
  have "uint (bit_field w0 w1 ofs bits)
      = take_bit bits (drop_bit ofs (concat_bit LENGTH('a) (uint w0) (uint w1)))"
  proof (rule bit_eqI)
    fix k
    from assms show "bit (uint (bit_field w0 w1 ofs bits)) k
      = bit (take_bit bits (drop_bit ofs (concat_bit LENGTH('a) (uint w0) (uint w1)))) k"
      by (auto simp add: bit_simps bit_bit_field_iff bit_uint_iff add.commute
          dest: bit_imp_le_length)
  qed
  also have "concat_bit LENGTH('a) (uint w0) (uint w1) = uint w0 + 2 ^ LENGTH('a) * uint w1"
    by (simp add: concat_bit_eq take_bit_eq_mod push_bit_eq_mult)
  finally show ?thesis
    by (simp add: take_bit_eq_mod drop_bit_eq_div)
qed

lemma set_bits_replace_bits:
  "ofs < max 32 LENGTH('a) \<Longrightarrow> n < max 32 LENGTH('a) \<Longrightarrow>
   set_bits inp val ofs n = Some (replace_bits inp (val :: 'a::len word) ofs n)"
  by (simp add: set_bits_def shl_def replace_bits_def)

lemma set_bit_range_fits:
  assumes "0 \<le> p" "p < int (length mem)" "0 < bits" "ofs + bits \<le> LENGTH('a)"
    "bits < LENGTH('a)" "LENGTH('a) \<le> 64"
  shows "set_bit_range mem p val ofs bits =
    Some (mem[nat p := replace_bits (mem ! nat p) (val :: 'a::len word) ofs bits])"
proof -
  from assms have "min (int bits) (int LENGTH('a) - int ofs) = int bits" by simp
  moreover from assms have "to_shift_t (int bits) = bits"
    by (simp add: to_shift_t_def)
  moreover from assms have "set_bits (mem ! nat p) val ofs bits
      = Some (replace_bits (mem ! nat p) val ofs bits)"
    by (intro set_bits_replace_bits) auto
  ultimately show ?thesis using assms
    by (simp add: set_bit_range_def load_def store_def)
qed

lemma set_bit_range_straddles:
  assumes "0 \<le> p" "p + 1 < int (length mem)" "ofs < LENGTH('a)" "bits < LENGTH('a)"
    "LENGTH('a) < ofs + bits" "LENGTH('a) \<le> 64"
  shows "set_bit_range mem p val ofs bits =
    Some (mem[nat p := replace_bits (mem ! nat p) (val :: 'a::len word) ofs (LENGTH('a) - ofs),
              Suc (nat p) := replace_bits (mem ! Suc (nat p)) (drop_bit (LENGTH('a) - ofs) val) 0
                 (ofs + bits - LENGTH('a))])"
proof -
  from assms have b0: "min (int bits) (int LENGTH('a) - int ofs) = int (LENGTH('a) - ofs)"
    by simp
  from assms have b1: "int bits - int (LENGTH('a) - ofs) = int (ofs + bits - LENGTH('a))"
    by simp
  from assms have s0: "to_shift_t (int (LENGTH('a) - ofs)) = LENGTH('a) - ofs"
    and s1: "to_shift_t (int (ofs + bits - LENGTH('a))) = ofs + bits - LENGTH('a)"
    by (simp_all add: to_shift_t_def)
  from assms have sb0: "set_bits (mem ! nat p) val ofs (LENGTH('a) - ofs)
      = Some (replace_bits (mem ! nat p) val ofs (LENGTH('a) - ofs))"
    by (intro set_bits_replace_bits) auto
  from assms have sb1: "\<And>w v. set_bits w (v :: 'a word) 0 (ofs + bits - LENGTH('a))
      = Some (replace_bits w v 0 (ofs + bits - LENGTH('a)))"
    by (intro set_bits_replace_bits) auto
  from assms have sh: "shr val (LENGTH('a) - ofs) = Some (drop_bit (LENGTH('a) - ofs) val)"
    by (auto simp add: shr_def)
  from assms show ?thesis
    unfolding set_bit_range_def Let_def b0 b1 s0 s1
    by (simp add: load_def store_def sb0 sb1 sh nat_add_distrib)
qed

lemma in_field_iff:
  assumes "0 \<le> p" "k < w" "ofs < w" "bits < w"
  shows "in_field w p ofs bits j k \<longleftrightarrow>
    (j = nat p \<and> ofs \<le> k \<and> k < ofs + bits) \<or> (j = nat p + 1 \<and> k + w < ofs + bits)"
proof -
  consider "int j < p" | "int j = p" | "int j = p + 1" | "p + 2 \<le> int j"
    by linarith
  then show ?thesis
  proof cases
    case 1
    then have "(int j + 1) * int w \<le> p * int w"
      by (intro mult_right_mono) auto
    with assms have "\<not> in_field w p ofs bits j k"
      by (simp add: in_field_def algebra_simps)
    moreover from 1 assms have "j \<noteq> nat p" "j \<noteq> nat p + 1"
      by linarith+
    ultimately show ?thesis by simp
  next
    case 2
    with assms show ?thesis
      by (auto simp add: in_field_def)
  next
    case 3
    with assms show ?thesis
      by (auto simp add: in_field_def algebra_simps)
  next
    case 4
    then have "(p + 2) * int w \<le> int j * int w"
      by (intro mult_right_mono) auto
    with assms have "\<not> in_field w p ofs bits j k"
      by (simp add: in_field_def algebra_simps)
    moreover from 4 assms have "j \<noteq> nat p" "j \<noteq> nat p + 1"
      by linarith+
    ultimately show ?thesis by simp
  qed
qed

lemma bit_below_width:
  assumes "unat (val :: 'a::len word) < 2 ^ bits" "bit val k"
  shows "k < bits"
proof -
  from assms(1) have "take_bit bits (unat val) = unat val"
    by (simp add: take_bit_nat_eq_self_iff)
  moreover from assms(2) have "bit (unat val) k"
    by (simp add: bit_unsigned_iff)
  ultimately show ?thesis
    by (metis bit_take_bit_iff)
qed

section \<open>Round trip\<close>

text \<open>
  C1.  For a word width \<open>W\<close> of 8, 16, 32 or 64 bits, a bit offset and a field width
  below \<open>W\<close>, and a value \<open>val < 2 ^ bits\<close>: on an array that holds the word at \<open>p\<close> and the
  word after it, \<open>set_bit_range\<close> succeeds, \<open>extract_bit_range\<close> (the pointer variant, with
  either \<open>shrd\<close>) at the same offset and width then returns \<open>val\<close>, the array keeps its
  length, and every bit of it outside the field is as it was before the write.
\<close>

theorem set_extract_round_trip:
  fixes mem :: "'a::len word list"
  assumes width: "LENGTH('a) \<in> {8, 16, 32, 64}"
    and p: "0 \<le> p" "p + 1 < int (length mem)"
    and ofs: "ofs < LENGTH('a)" and bits: "bits < LENGTH('a)" and val: "unat val < 2 ^ bits"
  shows "\<exists>mem'. set_bit_range mem p val ofs bits = Some mem'
    \<and> extract_bit_range_ptr arch mem' p ofs bits = Some val
    \<and> length mem' = length mem
    \<and> (\<forall>j < length mem. \<forall>k < LENGTH('a).
          \<not> in_field LENGTH('a) p ofs bits j k \<longrightarrow> bit (mem' ! j) k = bit (mem ! j) k)"
proof -
  from width have w: "LENGTH('a) \<le> 32 \<or> LENGTH('a) = 64" "LENGTH('a) \<le> 64"
    by auto
  define w0 where "w0 = mem ! nat p"
  define w1 where "w1 = mem ! Suc (nat p)"
  from p have idx: "nat p < length mem" "Suc (nat p) < length mem"
    by auto
  have small: "k < bits" if "bit val k" for k
    using val that by (rule bit_below_width)
  consider "bits = 0" | "0 < bits" "ofs + bits \<le> LENGTH('a)" | "LENGTH('a) < ofs + bits"
    by linarith
  then show ?thesis
  proof cases
    case 1
    with val have "val = 0"
      by (simp add: unat_eq_0)
    with 1 p ofs bits w show ?thesis
      by (simp add: set_bit_range_def extract_bit_range_ptr_field)
  next
    case 2
    define mem' where "mem' = mem[nat p := replace_bits w0 val ofs bits]"
    from 2 p bits w have set: "set_bit_range mem p val ofs bits = Some mem'"
      by (simp add: set_bit_range_fits mem'_def w0_def)
    have len: "length mem' = length mem"
      by (simp add: mem'_def)
    have "bit_field (mem' ! nat p) (mem' ! Suc (nat p)) ofs bits = val"
    proof (rule bit_word_eqI)
      fix k assume "k < LENGTH('a)"
      with 2 idx ofs
      show "bit (bit_field (mem' ! nat p) (mem' ! Suc (nat p)) ofs bits) k = bit val k"
        by (auto simp add: bit_bit_field_iff mem'_def bit_replace_bits_iff dest: small)
    qed
    with p ofs bits w len have ext: "extract_bit_range_ptr arch mem' p ofs bits = Some val"
      by (simp add: extract_bit_range_ptr_field)
    have "bit (mem' ! j) k = bit (mem ! j) k"
      if "j < length mem" "k < LENGTH('a)" "\<not> in_field LENGTH('a) p ofs bits j k" for j k
      using that p ofs bits 2
      by (cases "j = nat p") (auto simp add: in_field_iff mem'_def bit_replace_bits_iff w0_def)
    with set ext len show ?thesis by blast
  next
    case 3
    define mem' where "mem' = mem[nat p := replace_bits w0 val ofs (LENGTH('a) - ofs),
      Suc (nat p) := replace_bits w1 (drop_bit (LENGTH('a) - ofs) val) 0
        (ofs + bits - LENGTH('a))]"
    from 3 p ofs bits w have set: "set_bit_range mem p val ofs bits = Some mem'"
      by (simp add: set_bit_range_straddles mem'_def w0_def w1_def)
    have len: "length mem' = length mem"
      by (simp add: mem'_def)
    have m0: "mem' ! nat p = replace_bits w0 val ofs (LENGTH('a) - ofs)"
      and m1: "mem' ! Suc (nat p)
        = replace_bits w1 (drop_bit (LENGTH('a) - ofs) val) 0 (ofs + bits - LENGTH('a))"
      using idx by (simp_all add: mem'_def)
    have "bit_field (mem' ! nat p) (mem' ! Suc (nat p)) ofs bits = val"
    proof (rule bit_word_eqI)
      fix k assume "k < LENGTH('a)"
      with 3 ofs bits
      show "bit (bit_field (mem' ! nat p) (mem' ! Suc (nat p)) ofs bits) k = bit val k"
        by (auto simp add: bit_bit_field_iff m0 m1 bit_replace_bits_iff bit_simps dest: small)
    qed
    with p ofs bits w len have ext: "extract_bit_range_ptr arch mem' p ofs bits = Some val"
      by (simp add: extract_bit_range_ptr_field)
    have "bit (mem' ! j) k = bit (mem ! j) k"
      if "j < length mem" "k < LENGTH('a)" "\<not> in_field LENGTH('a) p ofs bits j k" for j k
    proof -
      consider "j = nat p" | "j = Suc (nat p)" | "j \<noteq> nat p" "j \<noteq> Suc (nat p)"
        by blast
      then show ?thesis
      proof cases
        case 1
        with that p ofs bits 3 show ?thesis
          by (auto simp add: in_field_iff m0 bit_replace_bits_iff w0_def)
      next
        case 2
        with that p ofs bits 3 idx show ?thesis
          by (auto simp add: in_field_iff m1 bit_replace_bits_iff w1_def)
      next
        case 3
        then show ?thesis by (simp add: mem'_def)
      qed
    qed
    with set ext len show ?thesis by blast
  qed
qed

theorem set_extract_round_trip_witness:
  "LENGTH(8) \<in> {8, 16, 32, 64 :: nat} \<and> (0::int) \<le> 0
   \<and> (0::int) + 1 < int (length [0xFF, 0xFF, 0xFF :: 8 word])
   \<and> (6::nat) < LENGTH(8) \<and> (5::nat) < LENGTH(8) \<and> unat (21 :: 8 word) < 2 ^ 5
   \<and> set_bit_range [0xFF, 0xFF, 0xFF :: 8 word] 0 21 6 5 = Some [0x7F, 0xFD, 0xFF]
   \<and> extract_bit_range_ptr Other_ISA [0x7F, 0xFD, 0xFF :: 8 word] 0 6 5 = Some 21"
  using set_extract_round_trip [where mem = "[0xFF, 0xFF, 0xFF :: 8 word]" and p = 0
      and ofs = 6 and bits = 5 and val = 21 and arch = Other_ISA]
  by (simp add: set_bit_range_def set_bits_def extract_bit_range_ptr_def load_def store_def
      shl_def shr_def shrd_def shrd_emulated_def shift_t_sub_def to_shift_t_def)

section \<open>Zero-width fields\<close>

text \<open>
  C7.  A field of width 0: the pointer variant of \<open>extract_bit_range\<close> returns 0 at
  every bit offset below the word width, whatever the word at \<open>p\<close> holds (the word
  after it is not read); the pure variant returns 0 for all arguments; and
  \<open>set_bit_range\<close> returns the array as it was, without reading or writing it (it
  succeeds even on a pointer outside the array).
\<close>

theorem zero_width_identity:
  "(0 \<le> p \<and> p < int (length mem) \<and> ofs < LENGTH('a) \<longrightarrow>
      extract_bit_range_ptr arch (mem :: 'a::len word list) p ofs 0 = Some 0)
   \<and> extract_bit_range arch (p0 :: 'a word) p1 ofs' 0 = Some 0
   \<and> set_bit_range mem q val ofs'' 0 = Some mem"
  by (simp add: extract_bit_range_ptr_def extract_bit_range_def set_bit_range_def
      load_def shr_def shl_def less_max_iff_disj)

theorem zero_width_identity_witness:
  "0 \<le> (0::int) \<and> (0::int) < int (length [0xAB :: 8 word]) \<and> (3::nat) < LENGTH(8)
   \<and> extract_bit_range_ptr Other_ISA [0xAB :: 8 word] 0 3 0 = Some 0
   \<and> extract_bit_range Other_ISA (0xAB :: 8 word) 0xCD 3 0 = Some 0
   \<and> set_bit_range [0xAB :: 8 word] 5 0xFF 3 0 = Some [0xAB]"
  using zero_width_identity [of 0 "[0xAB :: 8 word]" 3 Other_ISA "0xAB" "0xCD" 3 5 "0xFF" 3]
  by simp

section \<open>The two memory buffers\<close>

lemma smb_run_views:
  assumes "\<forall>k \<in> set ks. 0 \<le> k" "0 \<le> smb_data b"
    "smb_data b + sum_list ks + 1 < int (length mem)"
  shows "smb_run mem b ks = Some (word_views mem (smb_data b) ks)"
  using assms
proof (induction ks arbitrary: b)
  case Nil
  then show ?case by simp
next
  case (Cons k ks)
  let ?b = "smb_advance b k"
  from Cons.prems have k: "0 \<le> k" and ks: "\<forall>k \<in> set ks. 0 \<le> k" by simp_all
  then have "0 \<le> sum_list ks" by (simp add: sum_list_nonneg)
  with Cons.prems k have rd: "smb_curr mem ?b = Some (mem ! nat (smb_data b + k))"
    "smb_next mem ?b = Some (mem ! nat (smb_data b + k + 1))"
    by (simp_all add: smb_curr_def smb_next_def smb_advance_def load_def)
  from Cons.prems k have "smb_run mem ?b ks = Some (word_views mem (smb_data ?b) ks)"
    by (intro Cons.IH ks) (simp_all add: smb_advance_def add.assoc)
  with rd show ?case
    by (simp add: smb_advance_def)
qed

lemma bmb_advance_inv:
  assumes "bmb_inv mem b" "0 \<le> k" "0 \<le> bmb_data b" "bmb_data b + k + 1 < int (length mem)"
  shows "bmb_advance mem b k = Some \<lparr>bmb_data = bmb_data b + k,
      b0 = mem ! nat (bmb_data b + k), b1 = mem ! nat (bmb_data b + k + 1)\<rparr>"
  using assms
  by (auto simp add: bmb_advance_def bmb_inv_def load_def Let_def)

lemma bmb_run_views:
  assumes "\<forall>k \<in> set ks. 0 \<le> k" "0 \<le> bmb_data b"
    "bmb_data b + sum_list ks + 1 < int (length mem)" "bmb_inv mem b"
  shows "bmb_run mem b ks = Some (word_views mem (bmb_data b) ks)"
  using assms
proof (induction ks arbitrary: b)
  case Nil
  then show ?case by simp
next
  case (Cons k ks)
  from Cons.prems have k: "0 \<le> k" and ks: "\<forall>k \<in> set ks. 0 \<le> k" by simp_all
  then have s: "0 \<le> sum_list ks" by (simp add: sum_list_nonneg)
  define b' :: "'a buffered_mem_buffer" where "b' = \<lparr>bmb_data = bmb_data b + k,
      b0 = mem ! nat (bmb_data b + k), b1 = mem ! nat (bmb_data b + k + 1)\<rparr>"
  from Cons.prems k s have adv: "bmb_advance mem b k = Some b'"
    unfolding b'_def by (intro bmb_advance_inv) simp_all
  from Cons.prems k s have inv: "bmb_inv mem b'"
    by (simp add: bmb_inv_def b'_def load_def)
  from Cons.prems k have "bmb_run mem b' ks = Some (word_views mem (bmb_data b') ks)"
    by (intro Cons.IH ks inv) (simp_all add: b'_def add.assoc)
  with adv show ?case
    by (simp add: b'_def bmb_curr_def bmb_next_def)
qed

text \<open>
  C5.  A \<open>Simple_Mem_Buffer\<close> and a \<open>Buffered_Mem_Buffer\<close> are built over the same array
  at the same index \<open>p\<close> and driven by the same sequence of non-negative advances; the
  array holds every word up to the one after the last position reached.  Then both
  runs succeed, and after each advance \<open>curr()\<close> and \<open>next()\<close> of either buffer are the
  word at \<open>p\<close> plus the sum of the advances so far and the word after it.
\<close>

theorem buffer_strategies_agree:
  assumes "\<forall>k \<in> set ks. 0 \<le> k" and "0 \<le> p" and "p + sum_list ks + 1 < int (length mem)"
  shows "smb_run mem (simple_mem_buffer p) ks = Some (word_views mem p ks)
    \<and> (buffered_mem_buffer mem p \<bind> (\<lambda>b. bmb_run mem b ks)) = Some (word_views mem p ks)"
proof -
  from assms have s: "0 \<le> sum_list ks" by (simp add: sum_list_nonneg)
  from assms have "smb_run mem (simple_mem_buffer p) ks = Some (word_views mem p ks)"
    using smb_run_views [of ks "simple_mem_buffer p" mem] by (simp add: simple_mem_buffer_def)
  moreover
  define b :: "'a buffered_mem_buffer"
    where "b = \<lparr>bmb_data = p, b0 = mem ! nat p, b1 = mem ! nat (p + 1)\<rparr>"
  from assms s have "buffered_mem_buffer mem p = Some b"
    by (simp add: buffered_mem_buffer_def load_def b_def)
  moreover from assms s have "bmb_inv mem b"
    by (simp add: bmb_inv_def load_def b_def)
  with assms have "bmb_run mem b ks = Some (word_views mem p ks)"
    using bmb_run_views [of ks b mem] by (simp add: b_def)
  ultimately show ?thesis by simp
qed

theorem buffer_strategies_agree_witness:
  "0 + sum_list [1, 0, 2 :: int] + 1 < int (length [10, 11, 12, 13, 14 :: 8 word])
   \<and> smb_run [10, 11, 12, 13, 14 :: 8 word] (simple_mem_buffer 0) [1, 0, 2]
       = Some [(11, 12), (11, 12), (13, 14)]
   \<and> (buffered_mem_buffer [10, 11, 12, 13, 14 :: 8 word] 0
        \<bind> (\<lambda>b. bmb_run [10, 11, 12, 13, 14] b [1, 0, 2]))
       = Some [(11, 12), (11, 12), (13, 14)]"
  using buffer_strategies_agree [where ks = "[1, 0, 2]" and p = 0
      and mem = "[10, 11, 12, 13, 14 :: 8 word]"]
  by simp

section \<open>The post-increment of the buffered strategy\<close>

lemma bmb_reachable_inv: "bmb_reachable mem b \<Longrightarrow> bmb_inv mem b"
proof (induction rule: bmb_reachable.induct)
  case (construct p b)
  then show ?case
    by (auto simp add: buffered_mem_buffer_def bmb_inv_def split: bind_splits)
next
  case (advance b k b')
  then show ?case
    by (auto simp add: bmb_advance_def bmb_inv_def Let_def split: bind_splits if_splits)
qed

text \<open>
  C10.  In a state of \<open>Buffered_Mem_Buffer\<close> reached by construction and \<open>+=\<close>,
  \<open>operator ++ (int)\<close> succeeds and leaves the pointer where it was; afterwards \<open>curr()\<close>
  and \<open>next()\<close> both return what \<open>next()\<close> returned before, so they are equal.  After
  \<open>+= 1\<close>, where that is defined, the pointer has moved by one word, \<open>curr()\<close> returns
  what \<open>next()\<close> returned before, and \<open>next()\<close> returns the word two after the old
  pointer.
\<close>

theorem post_increment_keeps_pointer:
  assumes "bmb_reachable mem b"
  shows "\<exists>b'. bmb_post_inc mem b = Some b'
    \<and> bmb_data b' = bmb_data b
    \<and> bmb_curr b' = bmb_next b \<and> bmb_next b' = bmb_next b
    \<and> bmb_curr b' = bmb_next b'
    \<and> (\<forall>b''. bmb_advance mem b 1 = Some b'' \<longrightarrow>
          bmb_data b'' = bmb_data b + 1 \<and> bmb_curr b'' = bmb_next b
          \<and> load mem (bmb_data b + 2) = Some (bmb_next b''))"
proof -
  from assms have "bmb_inv mem b" by (rule bmb_reachable_inv)
  then show ?thesis
    by (auto simp add: bmb_inv_def bmb_post_inc_def bmb_curr_def bmb_next_def bmb_advance_def
        Let_def add.assoc split: bind_splits)
qed

theorem post_increment_keeps_pointer_witness:
  "bmb_reachable [1, 2, 3 :: 8 word] \<lparr>bmb_data = 0, b0 = 1, b1 = 2\<rparr>
   \<and> bmb_post_inc [1, 2, 3 :: 8 word] \<lparr>bmb_data = 0, b0 = 1, b1 = 2\<rparr>
       = Some \<lparr>bmb_data = 0, b0 = 2, b1 = 2\<rparr>
   \<and> bmb_advance [1, 2, 3 :: 8 word] \<lparr>bmb_data = 0, b0 = 1, b1 = 2\<rparr> 1
       = Some \<lparr>bmb_data = 1, b0 = 2, b1 = 3\<rparr>"
proof -
  have r: "bmb_reachable [1, 2, 3 :: 8 word] \<lparr>bmb_data = 0, b0 = 1, b1 = 2\<rparr>"
    by (rule bmb_reachable.construct [of _ 0]) (simp add: buffered_mem_buffer_def load_def)
  from post_increment_keeps_pointer [OF r] r show ?thesis
    by (simp add: bmb_post_inc_def bmb_advance_def load_def)
qed

section \<open>The bit cursor\<close>

lemma to_int_id: "0 \<le> i \<Longrightarrow> i < 2 ^ 31 \<Longrightarrow> to_int i = i"
  by (simp add: to_int_def)

lemma to_size_t_id: "0 \<le> i \<Longrightarrow> i < 2 ^ 31 \<Longrightarrow> to_size_t i = i"
  by (simp add: to_size_t_def)

lemma bb_advance_cursor_at:
  assumes "0 < w" "0 \<le> t" "0 \<le> n" "n + int w \<le> 2 ^ 31"
  shows "bb_advance w (cursor_at w p t) n = Some (cursor_at w p (t + n))"
proof -
  define s where "s = t mod int w + n"
  from assms have r: "0 \<le> t mod int w" "t mod int w < int w"
    by simp_all
  with assms have s: "0 \<le> s" "s < 2 ^ 31"
    by (simp_all add: s_def)
  then have add: "int_add (t mod int w) n = Some s"
    by (simp add: int_add_def s_def)
  from assms s have "s div int w \<le> s"
    by (metis div_by_1 int_one_le_iff_zero_less zdiv_mono2 zero_less_one of_nat_0_less_iff)
  with assms s have q: "0 \<le> s div int w" "s div int w < 2 ^ 31"
    by (simp_all add: pos_imp_zdiv_nonneg_iff)
  from assms s have m: "0 \<le> s mod int w" "s mod int w < 2 ^ 31"
    by (simp_all add: order_less_le_trans [OF pos_mod_bound [of "int w" s]])
  have "t + n = s + t div int w * int w"
    by (simp add: s_def)
  then have dm: "(t + n) div int w = t div int w + s div int w" "(t + n) mod int w = s mod int w"
    using assms by simp_all
  show ?thesis
    using s q m
    by (simp add: bb_advance_def cursor_at_def add [unfolded s_def] to_size_t_id to_int_id
        smb_advance_def dm s_def [symmetric] add.assoc)
qed

lemma bb_advances_cursor_at:
  assumes "0 < w" "0 \<le> t" "\<forall>n \<in> set ns. 0 \<le> n \<and> n + int w \<le> 2 ^ 31"
  shows "bb_advances w (cursor_at w p t) ns = Some (map (cursor_at w p) (totals t ns))"
  using assms
proof (induction ns arbitrary: t)
  case Nil
  then show ?case by simp
next
  case (Cons n ns)
  then have "bb_advance w (cursor_at w p t) n = Some (cursor_at w p (t + n))"
    by (simp add: bb_advance_cursor_at)
  moreover from Cons.prems
  have "bb_advances w (cursor_at w p (t + n)) ns = Some (map (cursor_at w p) (totals (t + n) ns))"
    by (intro Cons.IH) simp_all
  ultimately show ?case by simp
qed

lemma totals_increase:
  assumes "\<forall>n \<in> set ns. 0 \<le> n"
  shows "sorted (t # totals t ns)"
  using assms
proof (induction ns arbitrary: t)
  case Nil
  then show ?case by simp
next
  case (Cons n ns)
  then have "sorted ((t + n) # totals (t + n) ns)" by simp
  moreover from Cons.prems have "t \<le> t + n" by simp
  ultimately show ?case by auto
qed

lemma sorted_word_index:
  assumes "sorted ts" "0 < w"
  shows "sorted (map (\<lambda>t. p + t div int w) ts)"
  using assms
  by (induction ts) (auto simp add: zdiv_mono1)

text \<open>
  C8.  A cursor built at the word \<open>p\<close> starts at bit offset 0.  For a word width
  \<open>w > 0\<close> and a sequence of advances, each non-negative and with \<open>n + w \<le> 2 ^ 31\<close>, so
  that its sum with a bit offset below \<open>w\<close> fits the cursor's \<open>int\<close>: every advance
  succeeds; after each one the bit offset is at least 0 and below \<open>w\<close>; the word index
  never decreases; and the cursor is the word \<open>p\<close> plus the total of the bits advanced
  so far divided by \<open>w\<close>, with the remainder as the bit offset.  The bound is needed:
  for a non-negative advance beyond it, \<open>bit_ofs += bits\<close> overflows the \<open>int\<close> and the
  advance has no defined result, as the example further below shows.
\<close>

theorem cursor_normalized:
  assumes "0 < w" and "\<forall>n \<in> set ns. 0 \<le> n \<and> n + int w \<le> 2 ^ 31"
  shows "\<exists>cs. bb_advances w (bit_buffer p) ns = Some cs
    \<and> (\<forall>c \<in> set cs. 0 \<le> bit_ofs c \<and> bit_ofs c < int w)
    \<and> sorted (smb_data (bb_data (bit_buffer p)) # map (\<lambda>c. smb_data (bb_data c)) cs)
    \<and> cs = map (cursor_at w p) (totals 0 ns)"
proof -
  define cs where "cs = map (cursor_at w p) (totals 0 ns)"
  have init: "bit_buffer p = cursor_at w p 0"
    by (simp add: bit_buffer_def cursor_at_def simple_mem_buffer_def)
  from assms have "bb_advances w (bit_buffer p) ns = Some cs"
    unfolding init cs_def by (intro bb_advances_cursor_at) simp_all
  moreover from assms have "\<forall>c \<in> set cs. 0 \<le> bit_ofs c \<and> bit_ofs c < int w"
    by (simp add: cs_def cursor_at_def)
  moreover
  have "sorted (smb_data (bb_data (bit_buffer p)) # map (\<lambda>c. smb_data (bb_data c)) cs)"
  proof -
    from assms have "sorted (0 # totals 0 ns)"
      by (intro totals_increase) simp
    with assms have "sorted (map (\<lambda>t. p + t div int w) (0 # totals 0 ns))"
      by (intro sorted_word_index)
    then show ?thesis
      by (simp add: init cs_def cursor_at_def comp_def)
  qed
  ultimately show ?thesis
    unfolding cs_def by blast
qed

theorem cursor_normalized_witness:
  "bb_advances 8 (bit_buffer 3) [5, 7, 16, 0]
       = Some [\<lparr>bb_data = \<lparr>smb_data = 3\<rparr>, bit_ofs = 5\<rparr>, \<lparr>bb_data = \<lparr>smb_data = 4\<rparr>, bit_ofs = 4\<rparr>,
               \<lparr>bb_data = \<lparr>smb_data = 6\<rparr>, bit_ofs = 4\<rparr>, \<lparr>bb_data = \<lparr>smb_data = 6\<rparr>, bit_ofs = 4\<rparr>]"
  using cursor_normalized [where w = 8 and ns = "[5, 7, 16, 0]" and p = 3]
  by (auto simp add: cursor_at_def)

text \<open>
  On bytes, an advance of 7 bits followed by one of \<open>2147483641 = 2 ^ 31 - 7\<close> bits: both
  are non-negative, the first leaves the bit offset 7, and the sum \<open>7 + 2147483641\<close> of
  the second is \<open>2 ^ 31\<close>, outside the range of \<open>int\<close>.
\<close>

theorem cursor_overflow_counterexample:
  "(0 :: int) \<le> 7 \<and> (0 :: int) \<le> 2147483641
   \<and> bb_advance 8 (bit_buffer 0) 7 = Some \<lparr>bb_data = \<lparr>smb_data = 0\<rparr>, bit_ofs = 7\<rparr>
   \<and> bb_advance 8 \<lparr>bb_data = \<lparr>smb_data = 0\<rparr>, bit_ofs = 7\<rparr> 2147483641 = None
   \<and> bb_advances 8 (bit_buffer 0) [7, 2147483641] = None"
  by (simp add: bb_advance_def bit_buffer_def simple_mem_buffer_def int_add_def to_size_t_def
      to_int_def smb_advance_def)

section \<open>The double-word shift at a shift of zero\<close>

text \<open>
  C4.  The emulation and the accelerated \<open>shrd\<close> differ at a shift of 0 on 32-bit words:
  \<open>shrd_emulated\<close> then shifts \<open>high\<close> left by the full width \<open>TBITS - 0 = 32\<close>, which has no
  defined result, while the instruction leaves \<open>low\<close> as it is.  (Lemma
  \<open>shrd_emulated_agrees\<close> gives their agreement for shifts from 1 to \<open>W - 1\<close>, and at 0 on
  8-bit and 16-bit words.)
\<close>

theorem shrd_emulated_undefined_at_zero:
  "shrd_emulated (0 :: 32 word) 1 0 = None \<and> shrd Intel_ISA (0 :: 32 word) 1 0 = Some 0"
  by (simp add: shrd_emulated_def shrd_def shrd_intel_def shrd_insn_def shr_def shl_def
      shift_t_sub_def)

section \<open>The pure variant at a bit offset of zero\<close>

text \<open>
  C2.  With the portable \<open>shrd\<close>, the pure variant of \<open>extract_bit_range\<close> on 32-bit words
  at bit offset 0 has no defined result for a field of 3 bits: it calls \<open>shrd\<close> with a
  shift of 0 whether or not the field fits the first word.  The field there is 5; the
  pointer variant, which shifts the first word alone, returns it.  (Lemmas
  \<open>extract_bit_range_field\<close>, \<open>extract_bit_range_ptr_fits\<close>,
  \<open>extract_bit_range_ptr_straddles\<close> and \<open>uint_bit_field\<close> give the field wherever the
  shifts are defined.)
\<close>

theorem extract_bit_range_undefined_at_offset_zero:
  "extract_bit_range Other_ISA (5 :: 32 word) 0xFFFFFFFF 0 3 = None
   \<and> extract_bit_range_ptr Other_ISA [5, 0xFFFFFFFF :: 32 word] 0 0 3 = Some 5
   \<and> bit_field (5 :: 32 word) 0xFFFFFFFF 0 3 = 5"
  by (simp add: extract_bit_range_def extract_bit_range_ptr_def shrd_def shrd_emulated_def
      shr_def shl_def shift_t_sub_def load_def bit_field_def window_def)

section \<open>A field of the full word width\<close>

lemma extract_bit_range_ptr_full_word_narrow:
  assumes "LENGTH('a) < 32" "0 \<le> p" "p < int (length mem)"
  shows "extract_bit_range_ptr arch mem p 0 LENGTH('a) = Some (mem ! nat p :: 'a::len word)"
  using assms
  by (simp add: extract_bit_range_ptr_def load_def shr_def shl_def mask_and_take_bit)

text \<open>
  C9.  On 32-bit words, extracting a field of the full 32 bits at bit offset 0 has no
  defined result: the single-word path is taken, but the mask
  \<open>(Data(1) << bits) - 1\<close> shifts a 32-bit value by 32.  (On words narrower than \<open>int\<close>
  the result is the whole first word, lemma \<open>extract_bit_range_ptr_full_word_narrow\<close>.)
\<close>

theorem extract_full_word_undefined:
  "extract_bit_range_ptr arch [0xDEADBEEF, 0 :: 32 word] 0 0 32 = None"
  by (simp add: extract_bit_range_ptr_def load_def shr_def shl_def)

section \<open>Signed destinations\<close>

text \<open>
  C3.  A 5-bit field that holds \<open>0b10101\<close>, extracted by \<open>Bit_Extractor::extract\<close> from an
  array of bytes into a 32-bit destination: the destination receives the raw value,
  which reads 21 as an unsigned and also as a signed number, since \<open>extract\<close> assigns
  the result of \<open>buf.extract\<close> and does not call \<open>fixup_extract\<close>.  The overload of
  \<open>fixup_extract\<close> for signed types would not change it either: it passes the width 5
  as the sign bit, and bit 5 is clear.  \<open>sign_extend\<close> with the sign bit 4 gives \<open>-11\<close>.
\<close>

theorem extract_signed_not_sign_extended:
  "map_option (\<lambda>(r, e). (sint (r :: 32 word), uint r))
     (be_extract arch [21, 0 :: 8 word] (bit_extractor 0) 5) = Some (21, 21)
   \<and> fixup_extract_signed (21 :: 32 word) 5 = Some 21
   \<and> map_option sint (sign_extend (21 :: 32 word) 4) = Some (- 11)"
  by (simp add: be_extract_def bb_extract_def bit_extractor_def bit_buffer_def
      simple_mem_buffer_def smb_curr_def smb_next_def load_def extract_bit_range_def
      shrd_def shrd_emulated_def shr_def shift_t_sub_def shl_def to_size_t_def to_shift_t_def
      bb_advance_def int_add_def to_int_def smb_advance_def
      fixup_extract_signed_def sign_extend_def mask_eq_exp_minus_1)

section \<open>Streaming and direct extraction\<close>

lemma bb_extract_cursor_at:
  fixes mem :: "'a::len word list"
  assumes width: "LENGTH('a) \<in> {8, 16, 32, 64}"
    and shrd0: "arch = Intel_ISA \<or> LENGTH('a) < 32"
    and n: "0 \<le> n" "n < int LENGTH('a)" and t: "0 \<le> t" and p: "0 \<le> p"
    and len: "p + t div int LENGTH('a) + 1 < int (length mem)"
  shows "bb_extract arch mem (cursor_at LENGTH('a) p t) n =
    Some (bit_field (mem ! nat (p + t div int LENGTH('a)))
            (mem ! Suc (nat (p + t div int LENGTH('a)))) (nat (t mod int LENGTH('a))) (nat n),
          cursor_at LENGTH('a) p (t + n))"
proof -
  let ?w = "int LENGTH('a)"
  let ?q = "p + t div ?w"
  from t have q: "0 \<le> t div ?w"
    by (simp add: pos_imp_zdiv_nonneg_iff)
  with p len have rd: "smb_curr mem (bb_data (cursor_at LENGTH('a) p t)) = Some (mem ! nat ?q)"
    "smb_next mem (bb_data (cursor_at LENGTH('a) p t)) = Some (mem ! Suc (nat ?q))"
    by (simp_all add: smb_curr_def smb_next_def cursor_at_def load_def nat_add_distrib)
  have r: "0 \<le> t mod ?w" "t mod ?w < ?w"
    by simp_all
  with width have "t mod ?w < 2 ^ 31"
    by auto
  with r have ofs: "nat (to_size_t (bit_ofs (cursor_at LENGTH('a) p t))) = nat (t mod ?w)"
    by (simp add: cursor_at_def to_size_t_id)
  from n width have bits: "to_shift_t n = nat n"
    by (auto simp add: to_shift_t_def)
  from r n have "nat (t mod ?w) < LENGTH('a)" "nat n < LENGTH('a)"
    by linarith+
  with width shrd0 have ex: "extract_bit_range arch (mem ! nat ?q) (mem ! Suc (nat ?q))
      (nat (t mod ?w)) (nat n)
    = Some (bit_field (mem ! nat ?q) (mem ! Suc (nat ?q)) (nat (t mod ?w)) (nat n))"
    by (intro extract_bit_range_field) simp_all
  from width n t have adv: "bb_advance LENGTH('a) (cursor_at LENGTH('a) p t) n
      = Some (cursor_at LENGTH('a) p (t + n))"
    by (intro bb_advance_cursor_at) auto
  show ?thesis
    by (simp add: bb_extract_def rd ofs bits ex adv)
qed

text \<open>
  With the accelerated \<open>shrd\<close>, or on words narrower than \<open>int\<close>, the fields extracted
  through the cursor are those the pointer variant extracts at the accumulated
  offsets.
\<close>

lemma bb_extracts_fields:
  fixes mem :: "'a::len word list"
  assumes "LENGTH('a) \<in> {8, 16, 32, 64}" "arch = Intel_ISA \<or> LENGTH('a) < 32"
    "\<forall>n \<in> set ns. 0 \<le> n \<and> n < int LENGTH('a)" "0 \<le> t" "0 \<le> p"
    "p + (t + sum_list ns) div int LENGTH('a) + 1 < int (length mem)"
  shows "bb_extracts arch mem (cursor_at LENGTH('a) p t) ns = Some (fields mem p t ns)"
  using assms(3-)
proof (induction ns arbitrary: t)
  case Nil
  then show ?case by simp
next
  case (Cons n ns)
  let ?w = "int LENGTH('a)"
  from Cons.prems have n: "0 \<le> n" "n < ?w" and ns: "\<forall>n \<in> set ns. 0 \<le> n \<and> n < ?w"
    by simp_all
  then have "0 \<le> sum_list ns"
    by (simp add: sum_list_nonneg)
  with n have "t div ?w \<le> (t + sum_list (n # ns)) div ?w"
    by (intro zdiv_mono1) simp_all
  with Cons.prems have len: "p + t div ?w + 1 < int (length mem)"
    by simp
  from Cons.prems n
  have "bb_extracts arch mem (cursor_at LENGTH('a) p (t + n)) ns = Some (fields mem p (t + n) ns)"
    by (intro Cons.IH ns) (simp_all add: add.assoc)
  with assms(1,2) n Cons.prems len show ?case
    by (simp add: bb_extract_cursor_at)
qed

lemma direct_extracts_fields:
  fixes mem :: "'a::len word list"
  assumes "LENGTH('a) \<in> {8, 16, 32, 64}"
    "\<forall>n \<in> set ns. 0 \<le> n \<and> n < int LENGTH('a)" "0 \<le> t" "0 \<le> p"
    "p + (t + sum_list ns) div int LENGTH('a) + 1 < int (length mem)"
  shows "direct_extracts arch mem p t ns = Some (fields mem p t ns)"
  using assms(2-)
proof (induction ns arbitrary: t)
  case Nil
  then show ?case by simp
next
  case (Cons n ns)
  let ?w = "int LENGTH('a)"
  from Cons.prems have n: "0 \<le> n" "n < ?w" and ns: "\<forall>n \<in> set ns. 0 \<le> n \<and> n < ?w"
    by simp_all
  then have "0 \<le> sum_list ns"
    by (simp add: sum_list_nonneg)
  with n have "t div ?w \<le> (t + sum_list (n # ns)) div ?w"
    by (intro zdiv_mono1) simp_all
  with Cons.prems have len: "p + t div ?w + 1 < int (length mem)"
    by simp
  from Cons.prems have q: "0 \<le> p + t div ?w"
    by (simp add: pos_imp_zdiv_nonneg_iff)
  have "0 \<le> t mod ?w" "t mod ?w < ?w"
    by simp_all
  then have "nat (t mod ?w) < LENGTH('a)"
    by linarith
  with assms(1) n q len
  have "extract_bit_range_ptr arch mem (p + t div ?w) (nat (t mod ?w)) (nat n)
    = Some (bit_field (mem ! nat (p + t div ?w)) (mem ! Suc (nat (p + t div ?w)))
        (nat (t mod ?w)) (nat n))"
    by (intro extract_bit_range_ptr_field) auto
  moreover from Cons.prems n
  have "direct_extracts arch mem p (t + n) ns = Some (fields mem p (t + n) ns)"
    by (intro Cons.IH ns) (simp_all add: add.assoc)
  ultimately show ?case
    by simp
qed

lemma streaming_equals_direct:
  fixes mem :: "'a::len word list"
  assumes "LENGTH('a) \<in> {8, 16, 32, 64}" "arch = Intel_ISA \<or> LENGTH('a) < 32"
    "\<forall>n \<in> set ns. 0 \<le> n \<and> n < int LENGTH('a)" "0 \<le> p"
    "p + sum_list ns div int LENGTH('a) + 1 < int (length mem)"
  shows "bb_extracts arch mem (bit_buffer p) ns = direct_extracts arch mem p 0 ns"
    and "bb_extracts arch mem (bit_buffer p) ns = Some (fields mem p 0 ns)"
proof -
  have init: "bit_buffer p = cursor_at LENGTH('a) p 0"
    by (simp add: bit_buffer_def cursor_at_def simple_mem_buffer_def)
  from assms show "bb_extracts arch mem (bit_buffer p) ns = Some (fields mem p 0 ns)"
    unfolding init by (intro bb_extracts_fields) simp_all
  moreover from assms have "direct_extracts arch mem p 0 ns = Some (fields mem p 0 ns)"
    by (intro direct_extracts_fields) simp_all
  ultimately show "bb_extracts arch mem (bit_buffer p) ns = direct_extracts arch mem p 0 ns"
    by simp
qed

text \<open>
  C6.  With the portable \<open>shrd\<close> on 32-bit words, the first extraction through the
  cursor has no defined result: the cursor starts at bit offset 0 and
  \<open>Bit_Buffer::extract\<close> uses the pure variant of \<open>extract_bit_range\<close>, which calls \<open>shrd\<close>
  with a shift of 0.  The direct extraction with the pointer variant returns the
  field, 5.  (Lemma \<open>streaming_equals_direct\<close> gives the equality of both for the
  accelerated \<open>shrd\<close> and for 8-bit and 16-bit words.)
\<close>

theorem streaming_undefined_at_start:
  "bb_extracts Other_ISA [5, 0xFFFFFFFF :: 32 word] (bit_buffer 0) [3] = None
   \<and> direct_extracts Other_ISA [5, 0xFFFFFFFF :: 32 word] 0 0 [3] = Some [5]"
  by (simp add: bb_extract_def bit_buffer_def simple_mem_buffer_def smb_curr_def smb_next_def
      load_def extract_bit_range_def extract_bit_range_ptr_def shrd_def shrd_emulated_def
      shr_def shl_def shift_t_sub_def to_size_t_def to_shift_t_def)

section \<open>The writer's cursor\<close>

lemma set_bit_range_defined:
  fixes mem :: "'a::len word list"
  assumes "LENGTH('a) \<le> 64" "0 \<le> p" "p + 1 < int (length mem)"
    "ofs < LENGTH('a)" "bits < LENGTH('a)"
  shows "\<exists>mem'. set_bit_range mem p val ofs bits = Some mem'"
proof -
  consider "bits = 0" | "0 < bits" "ofs + bits \<le> LENGTH('a)" | "LENGTH('a) < ofs + bits"
    by linarith
  then show ?thesis
  proof cases
    case 1
    then show ?thesis by (simp add: set_bit_range_def)
  next
    case 2
    with assms show ?thesis by (simp add: set_bit_range_fits)
  next
    case 3
    with assms show ?thesis by (simp add: set_bit_range_straddles)
  qed
qed

text \<open>
  \<open>Bit_Writer::write\<close> of a field narrower than a word, on an array that holds the
  current word and the next one, succeeds and leaves the writer normalized as
  \<open>Bit_Buffer::advance\<close> leaves the cursor.
\<close>

lemma bw_write_writer_at:
  fixes mem :: "'a::len word list"
  assumes width: "LENGTH('a) \<in> {8, 16, 32, 64}"
    and n: "0 \<le> n" "n < int LENGTH('a)" and t: "0 \<le> t" and p: "0 \<le> p"
    and len: "p + t div int LENGTH('a) + 1 < int (length mem)"
  shows "\<exists>mem'. bw_write mem (writer_at LENGTH('a) p t) val n
    = Some (mem', writer_at LENGTH('a) p (t + n))"
proof -
  let ?w = "int LENGTH('a)"
  define s where "s = t mod ?w + n"
  have r: "0 \<le> t mod ?w" "t mod ?w < ?w"
    by simp_all
  with width n have s: "0 \<le> s" "s < 2 ^ 31"
    by (auto simp add: s_def)
  then have add: "int_add (t mod ?w) n = Some s"
    by (simp add: int_add_def s_def)
  from width s have m: "0 \<le> s mod ?w" "s mod ?w < 2 ^ 31"
    by auto
  have "t + n = s + t div ?w * ?w"
    by (simp add: s_def)
  then have dm: "(t + n) div ?w = t div ?w + s div ?w" "(t + n) mod ?w = s mod ?w"
    by simp_all
  from width r n have cv: "to_shift_t (t mod ?w) = nat (t mod ?w)" "to_shift_t n = nat n"
    by (auto simp add: to_shift_t_def)
  from r n have lt: "nat (t mod ?w) < LENGTH('a)" "nat n < LENGTH('a)"
    by linarith+
  from t have "0 \<le> t div ?w"
    by (simp add: pos_imp_zdiv_nonneg_iff)
  with width p len lt obtain mem'
    where "set_bit_range mem (p + t div ?w) val (nat (t mod ?w)) (nat n) = Some mem'"
    using set_bit_range_defined [of "p + t div ?w" mem "nat (t mod ?w)" "nat n" val]
    by auto
  with s m show ?thesis
    by (simp add: bw_write_def writer_at_def cv add [unfolded s_def] to_size_t_id to_int_id
        dm s_def [symmetric] add.assoc)
qed

end
